theory Spec2Isabelle
  imports Main "HOL-Library.Word"
begin

unbundle bit_operations_syntax

section \<open>Data model\<close>

text \<open>
  The allocator of \<^verbatim>\<open>src/osmem.c\<close> on an LP64 machine: \<^verbatim>\<open>size_t\<close>, \<^verbatim>\<open>long\<close> and
  pointers are 64-bit words, \<^verbatim>\<open>int\<close> is a 32-bit word, and the null pointer is 0.
  Arithmetic on words wraps around, as the C arithmetic on \<^verbatim>\<open>size_t\<close> does.
\<close>

type_synonym size_t = "64 word"
type_synonym addr = "64 word"
type_synonym c_int = "32 word"
type_synonym byte = "8 word"

text \<open>
  Modelled from the spec: \<^verbatim>\<open>helpers.h\<close>, which declares \<^verbatim>\<open>block_meta\<close>, the status
  tags and the \<^verbatim>\<open>DIE\<close> macro, is not among the sources. The spec gives a header the
  fields \<open>size\<close>, \<open>status\<close> (one of FREE, ALLOC, MAPPED) and \<open>next\<close>, and says that
  a refused kernel primitive terminates the process with a diagnostic naming it.
\<close>

datatype status = STATUS_FREE | STATUS_ALLOC | STATUS_MAPPED

record block_meta =
  size_f :: size_t
  status_f :: status
  next_f :: addr

datatype error = DIE string

text \<open>
  The calls the allocator makes to the outside (kernel and C library), in the order they
  are made.
\<close>

datatype event =
    Sbrk "64 word"
  | Mmap size_t
  | Munmap addr size_t
  | Memset addr size_t
  | Memcpy addr addr size_t

text \<open>
  The platform. \<open>sizeof_block_meta\<close> is \<^verbatim>\<open>sizeof(block_meta)\<close> (declared in the missing
  header, so a parameter here), \<open>page_size\<close> is what \<^verbatim>\<open>sysconf(_SC_PAGESIZE)\<close> returns.
  The kernel is a function of the history of calls: \<open>sbrk_ok\<close> says whether it moves the
  break by the increment, \<open>mmap_ret\<close> is the address it returns for a mapping request
  (\<open>- 1\<close> is \<^verbatim>\<open>MAP_FAILED\<close>), \<open>munmap_ok\<close> says whether it accepts the unmapping.
\<close>

record env =
  sizeof_block_meta :: size_t
  page_size :: "64 word"
  sbrk_ok :: "event list \<Rightarrow> 64 word \<Rightarrow> bool"
  mmap_ret :: "event list \<Rightarrow> size_t \<Rightarrow> addr"
  munmap_ok :: "event list \<Rightarrow> addr \<Rightarrow> size_t \<Rightarrow> bool"

text \<open>
  The process state. \<open>meta\<close> reads the header stored at an address, \<open>mem\<close> reads a
  payload byte; headers and payload bytes are kept in two stores, so a payload write that
  runs over a header is outside this model. \<open>brk\<close> is the program break.
\<close>

record state =
  global_base :: addr
  meta :: "addr \<Rightarrow> block_meta"
  mem :: "addr \<Rightarrow> byte"
  brk :: addr
  calls :: "event list"

section \<open>Macros of osmem.h\<close>

definition MMAP_THRESHOLD :: "'a::len word" where
  "MMAP_THRESHOLD = 131072"

definition ALIGNMENT :: "64 word" where
  "ALIGNMENT = 8"

definition ALIGN :: "64 word \<Rightarrow> 64 word" where
  "ALIGN sz = (sz + (ALIGNMENT - 1)) AND NOT (ALIGNMENT - 1)"

section \<open>Memory and kernel primitives\<close>

definition set_size :: "state \<Rightarrow> addr \<Rightarrow> size_t \<Rightarrow> state" where
  "set_size s p v = s\<lparr>meta := (meta s)(p := (meta s p)\<lparr>size_f := v\<rparr>)\<rparr>"

definition set_status :: "state \<Rightarrow> addr \<Rightarrow> status \<Rightarrow> state" where
  "set_status s p v = s\<lparr>meta := (meta s)(p := (meta s p)\<lparr>status_f := v\<rparr>)\<rparr>"

definition set_next :: "state \<Rightarrow> addr \<Rightarrow> addr \<Rightarrow> state" where
  "set_next s p v = s\<lparr>meta := (meta s)(p := (meta s p)\<lparr>next_f := v\<rparr>)\<rparr>"

text \<open>\<^verbatim>\<open>sbrk(inc)\<close>: the former break, or \<open>- 1\<close> when the kernel refuses.\<close>

definition sbrk :: "env \<Rightarrow> state \<Rightarrow> 64 word \<Rightarrow> addr \<times> state" where
  "sbrk E s inc =
     (if sbrk_ok E (calls s) inc
      then (brk s, s\<lparr>brk := brk s + inc, calls := calls s @ [Sbrk inc]\<rparr>)
      else (- 1, s\<lparr>calls := calls s @ [Sbrk inc]\<rparr>))"

text \<open>\<^verbatim>\<open>mmap(NULL, n, PROT_READ | PROT_WRITE, MAP_PRIVATE | MAP_ANONYMOUS, -1, 0)\<close>.\<close>

definition mmap :: "env \<Rightarrow> state \<Rightarrow> size_t \<Rightarrow> addr \<times> state" where
  "mmap E s n = (mmap_ret E (calls s) n, s\<lparr>calls := calls s @ [Mmap n]\<rparr>)"

text \<open>\<^verbatim>\<open>munmap(a, n)\<close>: 0, or \<open>- 1\<close> when the kernel refuses.\<close>

definition munmap :: "env \<Rightarrow> state \<Rightarrow> addr \<Rightarrow> size_t \<Rightarrow> c_int \<times> state" where
  "munmap E s a n =
     (if munmap_ok E (calls s) a n then 0 else - 1, s\<lparr>calls := calls s @ [Munmap a n]\<rparr>)"

text \<open>
  \<^verbatim>\<open>memset(p, 0, n)\<close> and \<^verbatim>\<open>memcpy(dst, src, n)\<close> on the payload bytes. An address \<open>a\<close>
  lies in the \<open>n\<close> bytes from \<open>p\<close> when \<open>a - p < n\<close> in unsigned arithmetic. The copy
  reads every source byte from the store before the call.
\<close>

definition memset0 :: "state \<Rightarrow> addr \<Rightarrow> size_t \<Rightarrow> state" where
  "memset0 s p n =
     s\<lparr>mem := (\<lambda>a. if a - p < n then 0 else mem s a), calls := calls s @ [Memset p n]\<rparr>"

definition memcpy :: "state \<Rightarrow> addr \<Rightarrow> addr \<Rightarrow> size_t \<Rightarrow> state" where
  "memcpy s dst src n =
     s\<lparr>mem := (\<lambda>a. if a - dst < n then mem s (src + (a - dst)) else mem s a),
       calls := calls s @ [Memcpy dst src n]\<rparr>"

section \<open>The static functions of osmem.c\<close>

text \<open>
  \<^verbatim>\<open>find_best_fit\<close>: the loop walks the \<open>next\<close> links from \<open>global_base\<close>; on a list
  that never reaches null it does not return, which is the value \<open>None\<close>.
\<close>

partial_function (option) find_best_fit_loop ::
  "state \<Rightarrow> size_t \<Rightarrow> addr \<Rightarrow> addr \<Rightarrow> addr option" where
  "find_best_fit_loop s sz current best_fit =
     (if current = 0 then Some best_fit
      else find_best_fit_loop s sz (next_f (meta s current))
             (if status_f (meta s current) = STATUS_FREE \<and> sz \<le> size_f (meta s current)
                 \<and> (best_fit = 0 \<or> size_f (meta s current) < size_f (meta s best_fit))
              then current else best_fit))"

declare find_best_fit_loop.simps [code]

definition find_best_fit :: "state \<Rightarrow> size_t \<Rightarrow> addr option" where
  "find_best_fit s sz = find_best_fit_loop s sz (global_base s) 0"

definition request_space_malloc :: "env \<Rightarrow> state \<Rightarrow> size_t \<Rightarrow> error + addr \<times> state" where
  "request_space_malloc E s sz =
     (if sz < MMAP_THRESHOLD then
        (let (b0, s0) = sbrk E s 0;
             (block, s1) = sbrk E s0 sz
         in if block = - 1 then Inl (DIE ''sbrk'')
            else Inr (block,
              set_next (set_status (set_size s1 block sz) block STATUS_ALLOC) block 0))
      else
        (let (block, s1) = mmap E s sz
         in if block = - 1 then Inl (DIE ''mmap'')
            else Inr (block,
              set_next (set_status (set_size s1 block sz) block STATUS_MAPPED) block 0)))"

definition request_space_calloc :: "env \<Rightarrow> state \<Rightarrow> size_t \<Rightarrow> error + addr \<times> state" where
  "request_space_calloc E s sz =
     (if sz < page_size E then
        (let (b0, s0) = sbrk E s 0;
             (block, s1) = sbrk E s0 sz
         in if block = - 1 then Inl (DIE ''sbrk'')
            else Inr (block,
              set_next (set_status (set_size s1 block sz) block STATUS_ALLOC) block 0))
      else
        (let (block, s1) = mmap E s sz
         in if block = - 1 then Inl (DIE ''mmap'')
            else Inr (block,
              set_next (set_status (set_size s1 block sz) block STATUS_MAPPED) block 0)))"

definition split_block :: "state \<Rightarrow> addr \<Rightarrow> size_t \<Rightarrow> state" where
  "split_block s block sz =
     (let new_block = block + sz;
          s1 = set_size s new_block (size_f (meta s block) - sz);
          s2 = set_status s1 new_block STATUS_FREE;
          s3 = set_next s2 new_block (next_f (meta s2 block));
          s4 = set_size s3 block sz
      in set_next s4 block new_block)"

text \<open>
  The body of the \<^verbatim>\<open>if (current->status == STATUS_FREE)\<close> statement of
  \<^verbatim>\<open>coalesce_blocks\<close>: the state and the value of \<open>current\<close> after it.
\<close>

definition coalesce_free :: "state \<Rightarrow> addr \<Rightarrow> addr \<Rightarrow> state \<times> addr" where
  "coalesce_free s prev current =
     (let (s1, current1) =
            (if prev \<noteq> 0 \<and> status_f (meta s prev) = STATUS_FREE then
               (let t1 = set_size s prev (size_f (meta s prev) + size_f (meta s current));
                    t2 = set_next t1 prev (next_f (meta t1 current))
                in (t2, prev))
             else (s, current))
      in if next_f (meta s1 current1) \<noteq> 0
            \<and> status_f (meta s1 (next_f (meta s1 current1))) = STATUS_FREE then
           (let t1 = set_size s1 current1
                       (size_f (meta s1 current1) + size_f (meta s1 (next_f (meta s1 current1))));
                t2 = set_next t1 current1 (next_f (meta t1 (next_f (meta t1 current1))))
            in (t2, current1))
         else (s1, current1))"

partial_function (option) coalesce_loop ::
  "state \<Rightarrow> addr \<Rightarrow> addr \<Rightarrow> (addr \<times> state) option" where
  "coalesce_loop s prev current =
     (if current = 0 then Some (prev, s)
      else
        (let (s1, current1) =
               (if status_f (meta s current) = STATUS_FREE then coalesce_free s prev current
                else (s, current))
         in coalesce_loop s1 current1 (next_f (meta s1 current1))))"

declare coalesce_loop.simps [code]

definition coalesce_blocks :: "state \<Rightarrow> (addr \<times> state) option" where
  "coalesce_blocks s = coalesce_loop s 0 (global_base s)"

definition first_time_prealloc :: "env \<Rightarrow> state \<Rightarrow> error + state" where
  "first_time_prealloc E s =
     (let (b0, s0) = sbrk E s 0;
          (b1, s1) = sbrk E (s0\<lparr>global_base := b0\<rparr>) MMAP_THRESHOLD;
          s2 = s1\<lparr>global_base := b1\<rparr>
      in if b1 = - 1 then Inl (DIE ''sbrk'')
         else Inr (set_next (set_status (set_size s2 b1 MMAP_THRESHOLD) b1 STATUS_FREE) b1 0))"

partial_function (option) realloc_expand_loop ::
  "state \<Rightarrow> addr \<Rightarrow> addr \<Rightarrow> state option" where
  "realloc_expand_loop s block nxt =
     (if nxt \<noteq> 0 \<and> status_f (meta s nxt) = STATUS_FREE then
        (let s1 = set_size s block (size_f (meta s block) + size_f (meta s nxt));
             s2 = set_next s1 block (next_f (meta s1 nxt))
         in realloc_expand_loop s2 block (next_f (meta s2 block)))
      else Some s)"

declare realloc_expand_loop.simps [code]

definition realloc_expand :: "state \<Rightarrow> addr \<Rightarrow> size_t \<Rightarrow> (addr \<times> state) option" where
  "realloc_expand s block sz =
     (case realloc_expand_loop s block (next_f (meta s block)) of
        None \<Rightarrow> None
      | Some s1 \<Rightarrow> Some (if sz \<le> size_f (meta s1 block) then block else 0, s1))"

definition get_block_ptr :: "env \<Rightarrow> addr \<Rightarrow> addr" where
  "get_block_ptr E ptr = ptr - ALIGN (sizeof_block_meta E)"


section \<open>The public operations\<close>

text \<open>
  A result is \<open>None\<close> when a loop over the registry does not return, \<open>Some (Inl e)\<close>
  when the process is terminated by \<^verbatim>\<open>DIE\<close>, and \<open>Some (Inr (p, s))\<close> when the call
  returns the pointer \<open>p\<close> in the state \<open>s\<close>.

  \<^verbatim>\<open>aligned_size\<close> is declared \<^verbatim>\<open>int\<close> in \<^verbatim>\<open>os_malloc\<close> and \<^verbatim>\<open>os_calloc\<close>: the sum is
  truncated to 32 bits (\<open>ucast\<close>), it is compared with the threshold as a signed number,
  and it is sign-extended (\<open>scast\<close>) wherever it meets a \<^verbatim>\<open>size_t\<close>.
\<close>

definition os_malloc :: "env \<Rightarrow> state \<Rightarrow> size_t \<Rightarrow> (error + addr \<times> state) option" where
  "os_malloc E s sz =
     (if sz = 0 then Some (Inr (0, s))
      else
        (let aligned_size = (ucast (ALIGN (sizeof_block_meta E) + ALIGN sz) :: c_int)
         in case (if global_base s = 0 \<and> sint aligned_size < sint (MMAP_THRESHOLD :: c_int)
                  then first_time_prealloc E s else Inr s) of
              Inl e \<Rightarrow> Some (Inl e)
            | Inr s1 \<Rightarrow>
               (case coalesce_blocks s1 of
                  None \<Rightarrow> None
                | Some (last_b, s2) \<Rightarrow>
                   (case find_best_fit s2 (scast aligned_size) of
                      None \<Rightarrow> None
                    | Some block \<Rightarrow>
                       if block \<noteq> 0 then
                         (let s3 = (if scast aligned_size + ALIGN (sizeof_block_meta E + ALIGN 1)
                                        \<le> size_f (meta s2 block)
                                    then split_block s2 block (scast aligned_size) else s2)
                          in Some (Inr (block + ALIGN (sizeof_block_meta E),
                                        set_status s3 block STATUS_ALLOC)))
                       else if last_b \<noteq> 0 \<and> status_f (meta s2 last_b) = STATUS_FREE then
                         (case request_space_malloc E s2
                                 (scast aligned_size - size_f (meta s2 last_b)) of
                            Inl e \<Rightarrow> Some (Inl e)
                          | Inr (block, s3) \<Rightarrow>
                             if block = 0 then Some (Inr (0, s3))
                             else
                               (let s4 = set_size s3 last_b
                                           (size_f (meta s3 last_b) + size_f (meta s3 block));
                                    s5 = (if scast aligned_size
                                               + ALIGN (sizeof_block_meta E + ALIGN 1)
                                             \<le> size_f (meta s4 last_b)
                                          then split_block s4 last_b (scast aligned_size) else s4)
                                in Some (Inr (last_b + ALIGN (sizeof_block_meta E),
                                              set_status s5 last_b STATUS_ALLOC))))
                       else
                         (case request_space_malloc E s2 (scast aligned_size) of
                            Inl e \<Rightarrow> Some (Inl e)
                          | Inr (block, s3) \<Rightarrow>
                             if block = 0 then Some (Inr (0, s3))
                             else
                               (let s4 =
                                  (if status_f (meta s3 block) = STATUS_ALLOC then
                                     (let t1 = set_next s3 last_b block
                                      in if status_f (meta t1 last_b) = STATUS_FREE then
                                           (let t2 = set_size t1 last_b
                                                       (size_f (meta t1 last_b)
                                                          + size_f (meta t1 block))
                                            in set_next t2 last_b (next_f (meta t2 block)))
                                         else t1)
                                   else s3)
                                in Some (Inr (block + ALIGN (sizeof_block_meta E), s4))))))))"

definition os_free :: "env \<Rightarrow> state \<Rightarrow> addr \<Rightarrow> error + state" where
  "os_free E s ptr =
     (if ptr = 0 then Inr s
      else
        (let block = get_block_ptr E ptr
         in if status_f (meta s block) = STATUS_ALLOC
            then Inr (set_status s block STATUS_FREE)
            else
              (let (ret, s1) = munmap E s block (size_f (meta s block))
               in if ret = - 1 then Inl (DIE ''munmap'') else Inr s1)))"

definition os_calloc ::
  "env \<Rightarrow> state \<Rightarrow> size_t \<Rightarrow> size_t \<Rightarrow> (error + addr \<times> state) option" where
  "os_calloc E s nmemb sz0 =
     (if nmemb = 0 \<or> sz0 = 0 then Some (Inr (0, s))
      else
        (let sz = sz0 * nmemb;
             aligned_size = (ucast (ALIGN (sizeof_block_meta E) + ALIGN sz) :: c_int)
         in case (if global_base s = 0 \<and> sint aligned_size < sint (page_size E)
                  then first_time_prealloc E s else Inr s) of
              Inl e \<Rightarrow> Some (Inl e)
            | Inr s1 \<Rightarrow>
               (case coalesce_blocks s1 of
                  None \<Rightarrow> None
                | Some (last_b, s2) \<Rightarrow>
                   (case find_best_fit s2 (scast aligned_size) of
                      None \<Rightarrow> None
                    | Some block \<Rightarrow>
                       if block \<noteq> 0 then
                         (let s3 = (if scast aligned_size + ALIGN (sizeof_block_meta E + ALIGN 1)
                                        \<le> size_f (meta s2 block)
                                    then split_block s2 block (scast aligned_size) else s2);
                              s4 = set_status s3 block STATUS_ALLOC
                          in Some (Inr (block + ALIGN (sizeof_block_meta E),
                                        memset0 s4 (block + ALIGN (sizeof_block_meta E)) sz)))
                       else if last_b \<noteq> 0 \<and> status_f (meta s2 last_b) = STATUS_FREE then
                         (case request_space_calloc E s2
                                 (scast aligned_size - size_f (meta s2 last_b)) of
                            Inl e \<Rightarrow> Some (Inl e)
                          | Inr (block, s3) \<Rightarrow>
                             if block = 0 then Some (Inr (0, s3))
                             else
                               (let s4 = set_size s3 last_b
                                           (size_f (meta s3 last_b) + size_f (meta s3 block));
                                    s5 = (if scast aligned_size
                                               + ALIGN (sizeof_block_meta E + ALIGN 1)
                                             \<le> size_f (meta s4 last_b)
                                          then split_block s4 last_b (scast aligned_size) else s4);
                                    s6 = set_status s5 last_b STATUS_ALLOC
                                in Some (Inr (last_b + ALIGN (sizeof_block_meta E),
                                              memset0 s6 (last_b + ALIGN (sizeof_block_meta E)) sz))))
                       else
                         (case request_space_calloc E s2 (scast aligned_size) of
                            Inl e \<Rightarrow> Some (Inl e)
                          | Inr (block, s3) \<Rightarrow>
                             if block = 0 then Some (Inr (0, s3))
                             else
                               (let s4 =
                                  (if status_f (meta s3 block) = STATUS_ALLOC then
                                     (let t1 = set_next s3 last_b block
                                      in if status_f (meta t1 last_b) = STATUS_FREE then
                                           (let t2 = set_size t1 last_b
                                                       (size_f (meta t1 last_b)
                                                          + size_f (meta t1 block))
                                            in set_next t2 last_b (next_f (meta t2 block)))
                                         else t1)
                                   else s3)
                                in Some (Inr (block + ALIGN (sizeof_block_meta E),
                                              memset0 s4 (block + ALIGN (sizeof_block_meta E))
                                                sz))))))))"

text \<open>
  The statements of lines 416 to 424 of \<^verbatim>\<open>os_realloc\<close>, which lines 454 to 462 repeat:
  allocate, copy \<^verbatim>\<open>new_block->size - ALIGN(sizeof(block_meta))\<close> bytes, free the old block.
\<close>

definition realloc_move ::
  "env \<Rightarrow> state \<Rightarrow> addr \<Rightarrow> size_t \<Rightarrow> (error + addr \<times> state) option" where
  "realloc_move E s ptr sz =
     (case os_malloc E s sz of
        None \<Rightarrow> None
      | Some (Inl e) \<Rightarrow> Some (Inl e)
      | Some (Inr (new_ptr, s1)) \<Rightarrow>
         (let new_block = get_block_ptr E new_ptr
          in if new_ptr = 0 then Some (Inr (0, s1))
             else
               (let s2 = memcpy s1 new_ptr ptr
                           (size_f (meta s1 new_block) - ALIGN (sizeof_block_meta E))
                in case os_free E s2 ptr of
                     Inl e \<Rightarrow> Some (Inl e)
                   | Inr s3 \<Rightarrow> Some (Inr (new_ptr, s3)))))"

definition os_realloc ::
  "env \<Rightarrow> state \<Rightarrow> addr \<Rightarrow> size_t \<Rightarrow> (error + addr \<times> state) option" where
  "os_realloc E s ptr sz =
     (let aligned_size = ALIGN sz + ALIGN (sizeof_block_meta E)
      in if ptr = 0 then os_malloc E s sz
         else if sz = 0 then
           (case os_free E s ptr of
              Inl e \<Rightarrow> Some (Inl e)
            | Inr s1 \<Rightarrow> Some (Inr (0, s1)))
         else
           (let block = get_block_ptr E ptr
            in if status_f (meta s block) = STATUS_FREE then Some (Inr (0, s))
               else if size_f (meta s block) = aligned_size then Some (Inr (ptr, s))
               else if status_f (meta s block) = STATUS_MAPPED then realloc_move E s ptr sz
               else if aligned_size \<le> size_f (meta s block)
                       \<and> aligned_size + ALIGN (sizeof_block_meta E + ALIGN 1)
                           \<le> size_f (meta s block)
               then Some (Inr (ptr, split_block s block aligned_size))
               else
                 (case coalesce_blocks s of
                    None \<Rightarrow> None
                  | Some (l, s1) \<Rightarrow>
                     (case realloc_expand s1 block aligned_size of
                        None \<Rightarrow> None
                      | Some (block1, s2) \<Rightarrow>
                         if block1 \<noteq> 0 then
                           Some (Inr (ptr,
                             if aligned_size + ALIGN (sizeof_block_meta E + ALIGN 1)
                                  \<le> size_f (meta s2 block1)
                             then split_block s2 block1 aligned_size else s2))
                         else realloc_move E s2 ptr sz))))"


section \<open>A concrete platform and start state\<close>

text \<open>
  A platform with a 24-byte header (\<open>size_t\<close>, \<open>int\<close>, pointer on LP64) and 4 KiB pages.
  Its kernel always moves the break, hands out mappings at page-aligned addresses far
  above the break, and accepts an unmapping only at a page-aligned address with a
  non-zero length. The start state is that of a process that has not called the
  allocator yet: no registry, break at 16 MiB, every payload byte 0xAA.
\<close>

definition linux_env :: env where
  "linux_env =
     \<lparr>sizeof_block_meta = 24, page_size = 4096,
      sbrk_ok = (\<lambda>l inc. True),
      mmap_ret = (\<lambda>l n. 0x7F0000000000 + 0x10000000 * (of_nat (length l) AND 0xFF)),
      munmap_ok = (\<lambda>l a n. a AND 4095 = 0 \<and> n \<noteq> 0)\<rparr>"

definition start_state :: state where
  "start_state =
     \<lparr>global_base = 0,
      meta = (\<lambda>a. \<lparr>size_f = 0, status_f = STATUS_FREE, next_f = 0\<rparr>),
      mem = (\<lambda>a. 0xAA),
      brk = 0x1000000,
      calls = []\<rparr>"

text \<open>The pointer and the state a call returned; null and the given state otherwise.\<close>

definition ret_ptr :: "(error + addr \<times> state) option \<Rightarrow> addr" where
  "ret_ptr r = (case r of Some (Inr (p, s)) \<Rightarrow> p | _ \<Rightarrow> 0)"

definition ret_state :: "state \<Rightarrow> (error + addr \<times> state) option \<Rightarrow> state" where
  "ret_state s0 r = (case r of Some (Inr (p, s)) \<Rightarrow> s | _ \<Rightarrow> s0)"

definition free_state :: "state \<Rightarrow> error + state \<Rightarrow> state" where
  "free_state s0 r = (case r of Inr s \<Rightarrow> s | _ \<Rightarrow> s0)"


text \<open>
  States reached from the start state on this platform:
  \<^item> \<open>st_a\<close>: after \<^verbatim>\<open>a = os_malloc(100)\<close>, which returns \<open>a = 0x1000018\<close>;
  \<^item> \<open>st_a_freed\<close>: after \<^verbatim>\<open>os_free(a)\<close> in \<open>st_a\<close>;
  \<^item> \<open>st_ab\<close>: after \<^verbatim>\<open>b = os_malloc(100)\<close> in \<open>st_a\<close>, which returns \<open>b = 0x1000098\<close>;
  \<^item> \<open>st_b_freed\<close>: after \<^verbatim>\<open>os_free(b)\<close> in \<open>st_ab\<close>;
  \<^item> \<open>st_mapped\<close>: after \<^verbatim>\<open>p = os_malloc(200000)\<close> in the start state, which returns
    \<open>p = 0x7F0000000018\<close>.
\<close>

definition st_a :: state where
  "st_a = ret_state start_state (os_malloc linux_env start_state 100)"

definition st_a_freed :: state where
  "st_a_freed = free_state st_a (os_free linux_env st_a 0x1000018)"

definition st_ab :: state where
  "st_ab = ret_state st_a (os_malloc linux_env st_a 100)"

definition st_b_freed :: state where
  "st_b_freed = free_state st_ab (os_free linux_env st_ab 0x1000098)"

definition st_mapped :: state where
  "st_mapped = ret_state start_state (os_malloc linux_env start_state 200000)"

definition st_ab_freed :: state where
  "st_ab_freed = free_state st_b_freed (os_free linux_env st_b_freed 0x1000018)"

text \<open>
  \<open>st_ties\<close>: after \<^verbatim>\<open>a = os_malloc(100); b = os_malloc(100); c = os_malloc(100);
  os_free(a); os_free(c)\<close>, with \<open>c = 0x1000118\<close>: two FREE blocks of 128 bytes.
\<close>

definition st_abc :: state where
  "st_abc = ret_state st_ab (os_malloc linux_env st_ab 100)"

definition st_ties :: state where
  "st_ties =
     free_state st_abc
       (os_free linux_env (free_state st_abc (os_free linux_env st_abc 0x1000018)) 0x1000118)"


section \<open>The registry as a list\<close>

text \<open>
  \<open>reg_seg s p as q\<close>: following the \<open>next\<close> links from \<open>p\<close> visits the headers \<open>as\<close>,
  none of them at the null address, and then arrives at \<open>q\<close>. The registry of a state is
  the list of headers from \<open>global_base\<close> to null.
\<close>

fun reg_seg :: "state \<Rightarrow> addr \<Rightarrow> addr list \<Rightarrow> addr \<Rightarrow> bool" where
  "reg_seg s p [] q = (p = q)"
| "reg_seg s p (a # as) q = (p = a \<and> a \<noteq> 0 \<and> reg_seg s (next_f (meta s a)) as q)"

definition registry :: "state \<Rightarrow> addr list \<Rightarrow> bool" where
  "registry s as = reg_seg s (global_base s) as 0"

text \<open>No two consecutive blocks of the list are both FREE.\<close>

fun no_adjacent_free :: "state \<Rightarrow> addr list \<Rightarrow> bool" where
  "no_adjacent_free s (a # b # as) =
     (\<not> (status_f (meta s a) = STATUS_FREE \<and> status_f (meta s b) = STATUS_FREE)
      \<and> no_adjacent_free s (b # as))"
| "no_adjacent_free s as = True"

text \<open>
  The blocks of the list are physically adjacent and end at address \<open>e\<close>: each block has a
  non-zero size and ends where its successor starts, the last one ends at \<open>e\<close>.
\<close>

fun chain :: "state \<Rightarrow> addr list \<Rightarrow> nat \<Rightarrow> bool" where
  "chain s [] e = True"
| "chain s [a] e = (0 < unat (size_f (meta s a)) \<and> unat a + unat (size_f (meta s a)) = e)"
| "chain s (a # b # as) e =
     (0 < unat (size_f (meta s a)) \<and> unat a + unat (size_f (meta s a)) = unat b
      \<and> chain s (b # as) e)"

text \<open>
  \<open>links_only s s'\<close>: the state \<open>s'\<close> differs from \<open>s\<close> at most in the \<open>size\<close> and
  \<open>next\<close> fields of headers.
\<close>

definition links_only :: "state \<Rightarrow> state \<Rightarrow> bool" where
  "links_only s s' \<longleftrightarrow>
     global_base s' = global_base s \<and> brk s' = brk s \<and> calls s' = calls s \<and> mem s' = mem s
     \<and> (\<forall>x. status_f (meta s' x) = status_f (meta s x))"

text \<open>
  The two assignments with which \<^verbatim>\<open>coalesce_blocks\<close> merges the block \<open>a\<close> into the
  block \<open>p\<close>: \<^verbatim>\<open>p->size += a->size; p->next = a->next\<close>.
\<close>

definition absorb :: "state \<Rightarrow> addr \<Rightarrow> addr \<Rightarrow> state" where
  "absorb s p a =
     set_next (set_size s p (size_f (meta s p) + size_f (meta s a))) p (next_f (meta s a))"

text \<open>
  A block fits a request when it is FREE and large enough. \<open>fit_step\<close> is one iteration
  of the loop of \<^verbatim>\<open>find_best_fit\<close> on the candidate \<open>best\<close>. \<open>best_fit_of s sz as b\<close> says
  that \<open>b\<close> is the best fit among the blocks \<open>as\<close>: null when no block fits; otherwise a
  fitting block of least size, and the first of that size in the list.
\<close>

definition fits :: "state \<Rightarrow> size_t \<Rightarrow> addr \<Rightarrow> bool" where
  "fits s sz a = (status_f (meta s a) = STATUS_FREE \<and> sz \<le> size_f (meta s a))"

definition fit_step :: "state \<Rightarrow> size_t \<Rightarrow> addr \<Rightarrow> addr \<Rightarrow> addr" where
  "fit_step s sz best current =
     (if status_f (meta s current) = STATUS_FREE \<and> sz \<le> size_f (meta s current)
         \<and> (best = 0 \<or> size_f (meta s current) < size_f (meta s best))
      then current else best)"

definition best_fit_of :: "state \<Rightarrow> size_t \<Rightarrow> addr list \<Rightarrow> addr \<Rightarrow> bool" where
  "best_fit_of s sz as b =
     (if \<exists>a \<in> set as. fits s sz a
      then b \<in> set as \<and> fits s sz b
         \<and> (\<forall>a \<in> set as. fits s sz a \<longrightarrow> size_f (meta s b) \<le> size_f (meta s a))
         \<and> (\<exists>xs ys. as = xs @ b # ys
               \<and> (\<forall>a \<in> set xs. fits s sz a \<longrightarrow> size_f (meta s b) < size_f (meta s a)))
      else b = 0)"

text \<open>The value of the variable \<^verbatim>\<open>aligned_size\<close> of \<^verbatim>\<open>os_malloc\<close>, an \<^verbatim>\<open>int\<close>.\<close>

definition malloc_aligned_size :: "env \<Rightarrow> size_t \<Rightarrow> c_int" where
  "malloc_aligned_size E sz = ucast (ALIGN (sizeof_block_meta E) + ALIGN sz)"

section \<open>The statements that allocate and zeroed-allocate share\<close>





section \<open>Pointer conversions\<close>


lemma scenario_pointers:
  "ret_ptr (os_malloc linux_env start_state 100) = 0x1000018"
  "ret_ptr (os_malloc linux_env st_a 100) = 0x1000098"
  "ret_ptr (os_malloc linux_env start_state 200000) = 0x7F0000000018"
  by code_simp+

section \<open>Free and reallocate on a block that is already FREE\<close>

text \<open>
  Claim C9. A free whose payload pointer names a block with status FREE is not a no-op:
  \<^verbatim>\<open>os_free\<close> tests the status only against \<^verbatim>\<open>STATUS_ALLOC\<close>, so it takes the other
  branch and calls \<^verbatim>\<open>munmap\<close> on the block's address and size; the process is terminated
  by \<^verbatim>\<open>DIE\<close> when the kernel refuses, and otherwise the call returns with the unmapping
  made.
\<close>

theorem os_free_free_block_unmaps:
  assumes "ptr \<noteq> 0" and "status_f (meta s (get_block_ptr E ptr)) = STATUS_FREE"
  shows "os_free E s ptr =
           (if munmap_ok E (calls s) (get_block_ptr E ptr)
                 (size_f (meta s (get_block_ptr E ptr)))
            then Inr (s\<lparr>calls := calls s
                       @ [Munmap (get_block_ptr E ptr)
                            (size_f (meta s (get_block_ptr E ptr)))]\<rparr>)
            else Inl (DIE ''munmap''))
         \<and> os_free E s ptr \<noteq> Inr s"
proof -
  let ?b = "get_block_ptr E ptr"
  let ?s' = "s\<lparr>calls := calls s @ [Munmap ?b (size_f (meta s ?b))]\<rparr>"
  have "calls ?s' \<noteq> calls s" by simp
  then have ne: "?s' \<noteq> s" by metis
  show ?thesis using assms ne
    by (simp add: os_free_def munmap_def Let_def)
qed

theorem os_free_free_block_unmaps_witness:
  "status_f (meta st_a_freed (get_block_ptr linux_env 0x1000018)) = STATUS_FREE
   \<and> calls (free_state st_a_freed (os_free linux_env st_a_freed 0x1000018))
       = [Sbrk 0, Sbrk 131072, Munmap 0x1000000 128]
   \<and> os_free linux_env st_a_freed 0x1000018 \<noteq> Inr st_a_freed"
proof -
  have h1: "(0x1000018 :: addr) \<noteq> 0" by simp
  have h2: "status_f (meta st_a_freed (get_block_ptr linux_env 0x1000018)) = STATUS_FREE"
    by code_simp
  have h3: "calls (free_state st_a_freed (os_free linux_env st_a_freed 0x1000018))
              = [Sbrk 0, Sbrk 131072, Munmap 0x1000000 128]"
    by code_simp
  show ?thesis
    using os_free_free_block_unmaps [OF h1 h2] h2 h3 by blast
qed

text \<open>
  Claim C6, as the code has it. A reallocate with a non-null pointer to a block with status
  FREE and a non-zero size returns null and leaves the whole state unchanged. (With size
  zero the call goes to \<^verbatim>\<open>os_free\<close> before the status is looked at.)
\<close>

theorem os_realloc_free_block:
  assumes "ptr \<noteq> 0" and "sz \<noteq> 0"
    and "status_f (meta s (get_block_ptr E ptr)) = STATUS_FREE"
  shows "os_realloc E s ptr sz = Some (Inr (0, s))"
  using assms by (simp add: os_realloc_def Let_def)

theorem os_realloc_free_block_witness:
  "status_f (meta st_b_freed (get_block_ptr linux_env 0x1000098)) = STATUS_FREE
   \<and> os_realloc linux_env st_b_freed 0x1000098 50 = Some (Inr (0, st_b_freed))"
proof -
  have h1: "(0x1000098 :: addr) \<noteq> 0" and h2: "(50 :: size_t) \<noteq> 0" by simp_all
  have h3: "status_f (meta st_b_freed (get_block_ptr linux_env 0x1000098)) = STATUS_FREE"
    by code_simp
  show ?thesis using os_realloc_free_block [OF h1 h2 h3] h3 by simp
qed

text \<open>
  The claim as stated fails when the requested size is zero: the block of \<open>b\<close> is FREE
  and does not start on a page boundary, the kernel refuses the unmapping, and the call
  does not return.
\<close>

theorem os_realloc_free_block_size_zero:
  "status_f (meta st_b_freed (get_block_ptr linux_env 0x1000098)) = STATUS_FREE
   \<and> os_realloc linux_env st_b_freed 0x1000098 0 = Some (Inl (DIE ''munmap''))"
  by code_simp

section \<open>The size computed by zeroed-allocate\<close>

text \<open>
  Claim C10. \<^verbatim>\<open>os_calloc\<close> multiplies count and element size in 64-bit wrap-around
  arithmetic and has no overflow guard: two calls with non-zero arguments whose products
  agree modulo \<open>2 ^ 64\<close> do exactly the same (same result, same final state, hence same
  sizing, block selection and zeroing), whether or not the mathematical product fits in
  a machine word.
\<close>

theorem os_calloc_product_wraps:
  assumes "nmemb \<noteq> 0" and "sz \<noteq> 0" and "nmemb' \<noteq> 0" and "sz' \<noteq> 0"
    and "(unat sz * unat nmemb) mod 2 ^ 64 = (unat sz' * unat nmemb') mod 2 ^ 64"
  shows "os_calloc E s nmemb sz = os_calloc E s nmemb' sz'"
proof -
  have "unat (sz * nmemb) = unat (sz' * nmemb')"
    using assms(5) by (simp add: unat_word_ariths)
  then have "sz * nmemb = sz' * nmemb'" by (simp only: word_unat_eq_iff)
  then show ?thesis using assms(1-4) by (simp add: os_calloc_def)
qed

text \<open>
  Count \<open>2 ^ 61 + 1\<close> and element size 8: the product exceeds the word range, the call
  behaves as the call for 8 bytes, returns a pointer into a 32-byte block and zeroes 8
  bytes.
\<close>

theorem os_calloc_product_wraps_witness:
  "2 ^ 64 \<le> unat (8 :: size_t) * unat (2305843009213693953 :: size_t)
   \<and> os_calloc linux_env start_state 2305843009213693953 8 = os_calloc linux_env start_state 1 8
   \<and> ret_ptr (os_calloc linux_env start_state 2305843009213693953 8) = 0x1000018
   \<and> size_f (meta (ret_state start_state
                     (os_calloc linux_env start_state 2305843009213693953 8)) 0x1000000) = 32
   \<and> calls (ret_state start_state (os_calloc linux_env start_state 2305843009213693953 8))
       = [Sbrk 0, Sbrk 131072, Memset 0x1000018 8]"
proof -
  have h1: "(2305843009213693953 :: size_t) \<noteq> 0" and h2: "(8 :: size_t) \<noteq> 0"
    and h3: "(1 :: size_t) \<noteq> 0" by simp_all
  have h4: "(unat (8 :: size_t) * unat (2305843009213693953 :: size_t)) mod 2 ^ 64
              = (unat (8 :: size_t) * unat (1 :: size_t)) mod 2 ^ 64" by simp
  have h5: "2 ^ 64 \<le> unat (8 :: size_t) * unat (2305843009213693953 :: size_t)" by simp
  have h6: "ret_ptr (os_calloc linux_env start_state 2305843009213693953 8) = 0x1000018"
    by code_simp
  have h7: "size_f (meta (ret_state start_state
                     (os_calloc linux_env start_state 2305843009213693953 8)) 0x1000000) = 32"
    by code_simp
  have h8: "calls (ret_state start_state (os_calloc linux_env start_state 2305843009213693953 8))
       = [Sbrk 0, Sbrk 131072, Memset 0x1000018 8]"
    by code_simp
  show ?thesis
    using os_calloc_product_wraps [OF h1 h2 h3 h2 h4, of linux_env start_state] h5 h6 h7 h8
    by blast
qed

section \<open>The copy made by a reallocate that moves a mapped block\<close>

text \<open>
  Claim C3, at \<^verbatim>\<open>p = os_malloc(200000); os_realloc(p, 300000)\<close>. The old block is
  MAPPED with size 200024, the new block has size 300024, and the call copies
  \<^verbatim>\<open>new_block->size - ALIGN(sizeof(block_meta))\<close> = 300000 bytes from \<open>p\<close>, where the
  lesser of the two block sizes minus the header is 200000.
\<close>

theorem os_realloc_mapped_grow_copy:
  "status_f (meta st_mapped (get_block_ptr linux_env 0x7F0000000018)) = STATUS_MAPPED
   \<and> size_f (meta st_mapped (get_block_ptr linux_env 0x7F0000000018)) = 200024
   \<and> ret_ptr (os_realloc linux_env st_mapped 0x7F0000000018 300000) = 0x7F0010000018
   \<and> size_f (meta (ret_state st_mapped (os_realloc linux_env st_mapped 0x7F0000000018 300000))
              (get_block_ptr linux_env 0x7F0010000018)) = 300024
   \<and> calls (ret_state st_mapped (os_realloc linux_env st_mapped 0x7F0000000018 300000))
       = [Mmap 200024, Mmap 300024, Memcpy 0x7F0010000018 0x7F0000000018 300000,
          Munmap 0x7F0000000000 200024]
   \<and> min (200024 :: nat) 300024 - unat (ALIGN (sizeof_block_meta linux_env)) = 200000"
proof -
  have old_block:
    "status_f (meta st_mapped (get_block_ptr linux_env 0x7F0000000018)) = STATUS_MAPPED
     \<and> size_f (meta st_mapped (get_block_ptr linux_env 0x7F0000000018)) = 200024"
    by code_simp
  have new_ptr: "ret_ptr (os_realloc linux_env st_mapped 0x7F0000000018 300000) = 0x7F0010000018"
    by code_simp
  have new_block:
    "size_f (meta (ret_state st_mapped (os_realloc linux_env st_mapped 0x7F0000000018 300000))
              (get_block_ptr linux_env 0x7F0010000018)) = 300024"
    by code_simp
  have made: "calls (ret_state st_mapped (os_realloc linux_env st_mapped 0x7F0000000018 300000))
       = [Mmap 200024, Mmap 300024, Memcpy 0x7F0010000018 0x7F0000000018 300000,
          Munmap 0x7F0000000000 200024]"
    by code_simp
  have least: "min (200024 :: nat) 300024 - unat (ALIGN (sizeof_block_meta linux_env)) = 200000"
    by (simp add: ALIGN_def ALIGNMENT_def linux_env_def)
  show ?thesis using old_block new_ptr new_block made least by blast
qed


section \<open>Header fields after the assignments\<close>

lemma set_size_fields:
  "size_f (meta (set_size s p v) q) = (if q = p then v else size_f (meta s q))"
  "status_f (meta (set_size s p v) q) = status_f (meta s q)"
  "next_f (meta (set_size s p v) q) = next_f (meta s q)"
  "global_base (set_size s p v) = global_base s"
  "brk (set_size s p v) = brk s"
  "calls (set_size s p v) = calls s"
  "mem (set_size s p v) = mem s"
  by (simp_all add: set_size_def)

lemma set_status_fields:
  "size_f (meta (set_status s p v) q) = size_f (meta s q)"
  "status_f (meta (set_status s p v) q) = (if q = p then v else status_f (meta s q))"
  "next_f (meta (set_status s p v) q) = next_f (meta s q)"
  "global_base (set_status s p v) = global_base s"
  "brk (set_status s p v) = brk s"
  "calls (set_status s p v) = calls s"
  "mem (set_status s p v) = mem s"
  by (simp_all add: set_status_def)

lemma set_next_fields:
  "size_f (meta (set_next s p v) q) = size_f (meta s q)"
  "status_f (meta (set_next s p v) q) = status_f (meta s q)"
  "next_f (meta (set_next s p v) q) = (if q = p then v else next_f (meta s q))"
  "global_base (set_next s p v) = global_base s"
  "brk (set_next s p v) = brk s"
  "calls (set_next s p v) = calls s"
  "mem (set_next s p v) = mem s"
  by (simp_all add: set_next_def)

lemmas setter_fields = set_size_fields set_status_fields set_next_fields




section \<open>Lists of headers\<close>

lemma reg_seg_append:
  "reg_seg s p (xs @ ys) q \<longleftrightarrow> (\<exists>m. reg_seg s p xs m \<and> reg_seg s m ys q)"
  by (induction xs arbitrary: p) auto

lemma reg_seg_cong:
  "(\<And>x. x \<in> set as \<Longrightarrow> next_f (meta s' x) = next_f (meta s x)) \<Longrightarrow>
     reg_seg s' p as q = reg_seg s p as q"
  by (induction as arbitrary: p) auto

lemma reg_seg_nonzero: "reg_seg s p as q \<Longrightarrow> 0 \<notin> set as"
  by (induction as arbitrary: p) auto

lemma reg_seg_unique: "reg_seg s p as 0 \<Longrightarrow> reg_seg s p bs 0 \<Longrightarrow> as = bs"
proof (induction as arbitrary: p bs)
  case Nil
  then show ?case by (cases bs) auto
next
  case (Cons a as)
  then show ?case by (cases bs) auto
qed

lemma reg_seg_head_fresh:
  assumes "reg_seg s (next_f (meta s a)) as 0"
  shows "a \<notin> set as"
proof
  assume "a \<in> set as"
  then obtain us vs where d: "as = us @ a # vs" by (auto simp add: in_set_conv_decomp)
  with assms have "reg_seg s (next_f (meta s a)) vs 0"
    by (auto simp add: reg_seg_append)
  with assms have "as = vs" by (rule reg_seg_unique)
  with d show False by simp
qed

lemma reg_seg_distinct: "reg_seg s p as 0 \<Longrightarrow> distinct as"
  by (induction as arbitrary: p) (auto dest: reg_seg_head_fresh)

lemma reg_seg_unlink:
  assumes path: "reg_seg s b (xs @ p # a # ys) 0"
    and link: "next_f (meta s' p) = next_f (meta s a)"
    and rest: "\<And>x. x \<noteq> p \<Longrightarrow> next_f (meta s' x) = next_f (meta s x)"
  shows "reg_seg s' b (xs @ p # ys) 0"
proof -
  from path have "distinct (xs @ p # a # ys)" by (rule reg_seg_distinct)
  then have fresh: "p \<notin> set xs" "p \<notin> set ys" by auto
  from path have 1: "reg_seg s b xs p" and 2: "p \<noteq> 0"
    and 3: "reg_seg s (next_f (meta s a)) ys 0"
    by (auto simp add: reg_seg_append)
  have "reg_seg s' b xs p"
    using 1 fresh(1) rest reg_seg_cong [of xs s' s b p] by metis
  moreover have "reg_seg s' (next_f (meta s a)) ys 0"
    using 3 fresh(2) rest reg_seg_cong [of ys s' s "next_f (meta s a)" 0] by metis
  ultimately show ?thesis using 2 link by (auto simp add: reg_seg_append)
qed

lemma no_adjacent_free_cong:
  "(\<And>x. x \<in> set as \<Longrightarrow> status_f (meta s' x) = status_f (meta s x)) \<Longrightarrow>
     no_adjacent_free s' as = no_adjacent_free s as"
  by (induction s as rule: no_adjacent_free.induct) auto

lemma no_adjacent_free_snoc:
  "no_adjacent_free s (as @ [a]) \<longleftrightarrow>
     no_adjacent_free s as
     \<and> (as = [] \<or> \<not> (status_f (meta s (last as)) = STATUS_FREE \<and> status_f (meta s a) = STATUS_FREE))"
  by (induction s as rule: no_adjacent_free.induct) auto

lemma links_only_refl: "links_only s s"
  by (simp add: links_only_def)

lemma links_only_trans: "links_only s t \<Longrightarrow> links_only t u \<Longrightarrow> links_only s u"
  by (simp add: links_only_def)

lemma chain_append:
  "chain s (xs @ y # ys) e \<longleftrightarrow> chain s xs (unat y) \<and> chain s (y # ys) e"
  by (induction s xs e rule: chain.induct) auto

lemma chain_cong:
  "(\<And>x. x \<in> set as \<Longrightarrow> size_f (meta s' x) = size_f (meta s x)) \<Longrightarrow>
     chain s' as e = chain s as e"
  by (induction s as e rule: chain.induct) auto


lemma absorb_fields:
  "next_f (meta (absorb s p a) x) = (if x = p then next_f (meta s a) else next_f (meta s x))"
  "size_f (meta (absorb s p a) x)
     = (if x = p then size_f (meta s p) + size_f (meta s a) else size_f (meta s x))"
  "status_f (meta (absorb s p a) x) = status_f (meta s x)"
  by (simp_all add: absorb_def setter_fields)

lemma links_only_absorb: "links_only s (absorb s p a)"
  by (simp add: links_only_def absorb_def setter_fields)

lemma coalesce_free_absorb:
  "coalesce_free s prev current =
     (let (s1, c1) = (if prev \<noteq> 0 \<and> status_f (meta s prev) = STATUS_FREE
                      then (absorb s prev current, prev) else (s, current))
      in if next_f (meta s1 c1) \<noteq> 0 \<and> status_f (meta s1 (next_f (meta s1 c1))) = STATUS_FREE
         then (absorb s1 c1 (next_f (meta s1 c1)), c1) else (s1, c1))"
  by (simp add: coalesce_free_def absorb_def Let_def setter_fields)

lemma reg_seg_absorb:
  assumes "reg_seg s b (xs @ p # a # ys) 0"
  shows "reg_seg (absorb s p a) b (xs @ p # ys) 0"
  using assms by (rule reg_seg_unlink) (simp_all add: absorb_fields)

lemma chain_absorb:
  assumes c: "chain s (xs @ p # a # ys) e" and e: "e < 2 ^ 64"
    and d: "distinct (xs @ p # a # ys)"
  shows "chain (absorb s p a) (xs @ p # ys) e"
proof -
  let ?s' = "absorb s p a"
  from d have fresh: "p \<notin> set xs" "p \<notin> set ys" by auto
  from c have 1: "chain s xs (unat p)" and 2: "0 < unat (size_f (meta s p))"
    and 3: "unat p + unat (size_f (meta s p)) = unat a" and 4: "chain s (a # ys) e"
    by (auto simp add: chain_append)
  have 5: "unat a + unat (size_f (meta s a)) < 2 ^ 64"
  proof (cases ys)
    case Nil
    with 4 e show ?thesis by simp
  next
    case (Cons y ys')
    with 4 have "unat a + unat (size_f (meta s a)) = unat y" by simp
    then show ?thesis using unsigned_less [of y] by simp
  qed
  with 3 have "unat (size_f (meta s p)) + unat (size_f (meta s a)) < 2 ^ 64" by simp
  then have sum: "unat (size_f (meta s p) + size_f (meta s a))
                    = unat (size_f (meta s p)) + unat (size_f (meta s a))"
    by (simp add: unat_add_lem [THEN iffD1])
  have "chain ?s' xs (unat p)"
    using 1 fresh(1) chain_cong [of xs ?s' s "unat p"] by (simp add: absorb_fields) metis
  moreover have "chain ?s' (p # ys) e"
  proof (cases ys)
    case Nil
    with 4 2 3 sum show ?thesis by (simp add: absorb_fields)
  next
    case (Cons y ys')
    have "chain ?s' ys e = chain s ys e"
      using fresh(2) chain_cong [of ys ?s' s e] by (simp add: absorb_fields) metis
    with Cons 4 2 3 sum show ?thesis by (simp add: absorb_fields)
  qed
  ultimately show ?thesis by (simp add: chain_append)
qed

section \<open>The best-fit search\<close>

lemma find_best_fit_loop_step:
  "current \<noteq> 0 \<Longrightarrow>
     find_best_fit_loop s sz current best
       = find_best_fit_loop s sz (next_f (meta s current)) (fit_step s sz best current)"
  by (subst find_best_fit_loop.simps) (simp add: fit_step_def)

lemma find_best_fit_loop_path:
  "reg_seg s current as 0 \<Longrightarrow>
     find_best_fit_loop s sz current best = Some (foldl (fit_step s sz) best as)"
proof (induction as arbitrary: current best)
  case Nil
  then show ?case by (simp add: find_best_fit_loop.simps)
next
  case (Cons a as)
  then have "current = a" "a \<noteq> 0" "reg_seg s (next_f (meta s a)) as 0" by simp_all
  then show ?case
    using Cons.IH [of "next_f (meta s a)" "fit_step s sz best a"]
    by (simp add: find_best_fit_loop_step)
qed

lemma foldl_fit_step:
  "0 \<notin> set as \<Longrightarrow> best_fit_of s sz as (foldl (fit_step s sz) 0 as)"
proof (induction as rule: rev_induct)
  case Nil
  then show ?case by (simp add: best_fit_of_def)
next
  case (snoc a as)
  let ?r = "foldl (fit_step s sz) 0 as"
  from snoc have ih: "best_fit_of s sz as ?r" and nz: "a \<noteq> 0" "0 \<notin> set as" by auto
  show ?case
  proof (cases "\<exists>x \<in> set as. fits s sz x")
    case none: False
    with ih have r0: "?r = 0" by (simp add: best_fit_of_def)
    show ?thesis
    proof (cases "fits s sz a")
      case True
      then have "fit_step s sz ?r a = a" using r0 by (simp add: fit_step_def fits_def)
      moreover have "best_fit_of s sz (as @ [a]) a"
        using True none unfolding best_fit_of_def by auto
      ultimately show ?thesis by simp
    next
      case False
      then have "fit_step s sz ?r a = 0" using r0 by (auto simp add: fit_step_def fits_def)
      moreover have "best_fit_of s sz (as @ [a]) 0"
        using False none unfolding best_fit_of_def by auto
      ultimately show ?thesis by simp
    qed
  next
    case some: True
    with ih have r: "?r \<in> set as" "fits s sz ?r"
      "\<forall>x \<in> set as. fits s sz x \<longrightarrow> size_f (meta s ?r) \<le> size_f (meta s x)"
      and dec: "\<exists>xs ys. as = xs @ ?r # ys
               \<and> (\<forall>x \<in> set xs. fits s sz x \<longrightarrow> size_f (meta s ?r) < size_f (meta s x))"
      by (simp_all add: best_fit_of_def)
    from r(1) nz have rnz: "?r \<noteq> 0" by auto
    show ?thesis
    proof (cases "fits s sz a \<and> size_f (meta s a) < size_f (meta s ?r)")
      case True
      then have st: "fit_step s sz ?r a = a" by (simp add: fit_step_def fits_def)
      have "\<forall>x \<in> set as. fits s sz x \<longrightarrow> size_f (meta s a) < size_f (meta s x)"
        using r(3) True by fastforce
      then have "best_fit_of s sz (as @ [a]) a"
        using True unfolding best_fit_of_def by auto
      with st show ?thesis by simp
    next
      case False
      then have st: "fit_step s sz ?r a = ?r" using rnz by (auto simp add: fit_step_def fits_def)
      from dec obtain xs ys where d: "as = xs @ ?r # ys"
        "\<forall>x \<in> set xs. fits s sz x \<longrightarrow> size_f (meta s ?r) < size_f (meta s x)" by blast
      have "as @ [a] = xs @ ?r # (ys @ [a])" using d(1) by simp
      then have "\<exists>xs ys. as @ [a] = xs @ ?r # ys
               \<and> (\<forall>x \<in> set xs. fits s sz x \<longrightarrow> size_f (meta s ?r) < size_f (meta s x))"
        using d(2) by blast
      moreover have "\<forall>x \<in> set (as @ [a]). fits s sz x \<longrightarrow> size_f (meta s ?r) \<le> size_f (meta s x)"
        using r(3) False by auto
      ultimately have "best_fit_of s sz (as @ [a]) ?r"
        using r(1,2) unfolding best_fit_of_def by auto
      with st show ?thesis by simp
    qed
  qed
qed


text \<open>
  Claim C8. On every registry (a list of headers from \<open>global_base\<close> to null) and for every
  size, \<^verbatim>\<open>find_best_fit\<close> returns, and what it returns is the best fit: null exactly when no
  block of the registry is FREE with at least that size; otherwise a FREE block of the
  registry of at least that size, of least size among those, and the first of its size in
  list order.
\<close>

theorem find_best_fit_spec:
  assumes "registry s as"
  shows "\<exists>b. find_best_fit s sz = Some b \<and> best_fit_of s sz as b"
proof -
  from assms have p: "reg_seg s (global_base s) as 0" by (simp add: registry_def)
  then have "find_best_fit s sz = Some (foldl (fit_step s sz) 0 as)"
    by (simp add: find_best_fit_def find_best_fit_loop_path)
  moreover have "best_fit_of s sz as (foldl (fit_step s sz) 0 as)"
    using p by (intro foldl_fit_step reg_seg_nonzero)
  ultimately show ?thesis by blast
qed

theorem find_best_fit_spec_witness:
  "registry st_ties [0x1000000, 0x1000080, 0x1000100, 0x1000180]
   \<and> map (\<lambda>a. (size_f (meta st_ties a), status_f (meta st_ties a)))
         [0x1000000, 0x1000080, 0x1000100, 0x1000180]
       = [(128, STATUS_FREE), (128, STATUS_ALLOC), (128, STATUS_FREE), (130688, STATUS_FREE)]
   \<and> find_best_fit st_ties 120 = Some 0x1000000
   \<and> best_fit_of st_ties 120 [0x1000000, 0x1000080, 0x1000100, 0x1000180] 0x1000000"
proof -
  have reg: "registry st_ties [0x1000000, 0x1000080, 0x1000100, 0x1000180]" by code_simp
  have blocks: "map (\<lambda>a. (size_f (meta st_ties a), status_f (meta st_ties a)))
         [0x1000000, 0x1000080, 0x1000100, 0x1000180]
       = [(128, STATUS_FREE), (128, STATUS_ALLOC), (128, STATUS_FREE), (130688, STATUS_FREE)]"
    by code_simp
  have found: "find_best_fit st_ties 120 = Some 0x1000000" by code_simp
  from find_best_fit_spec [OF reg, of 120] found
  have "best_fit_of st_ties 120 [0x1000000, 0x1000080, 0x1000100, 0x1000180] 0x1000000"
    by simp
  with reg blocks found show ?thesis by blast
qed

section \<open>The coalescing pass\<close>

lemma reg_seg_last_next:
  "reg_seg s b (ps @ as) 0 \<Longrightarrow> ps \<noteq> [] \<Longrightarrow>
     next_f (meta s (last ps)) = (case as of [] \<Rightarrow> 0 | x # _ \<Rightarrow> x)"
proof -
  assume p: "reg_seg s b (ps @ as) 0" and ne: "ps \<noteq> []"
  from ne obtain qs q where ps: "ps = qs @ [q]" by (metis rev_exhaust)
  with p have "reg_seg s (next_f (meta s q)) as 0" by (auto simp add: reg_seg_append)
  then have "next_f (meta s q) = (case as of [] \<Rightarrow> 0 | x # _ \<Rightarrow> x)"
    by (cases as) auto
  with ps show ?thesis by simp
qed

lemma coalesce_loop_step:
  "current \<noteq> 0 \<Longrightarrow>
     coalesce_loop s prev current =
       (let (s1, c1) = (if status_f (meta s current) = STATUS_FREE
                        then coalesce_free s prev current else (s, current))
        in coalesce_loop s1 c1 (next_f (meta s1 c1)))"
  by (subst coalesce_loop.simps) simp

lemma coalesce_body:
  assumes path: "reg_seg s (global_base s) (ps @ a # as) 0"
    and prev: "prev = (if ps = [] then 0 else last ps)"
    and naf: "no_adjacent_free s ps"
  shows "\<exists>s1 c1 ps' as'.
      (if status_f (meta s a) = STATUS_FREE then coalesce_free s prev a else (s, a)) = (s1, c1)
      \<and> length as' \<le> length as
      \<and> reg_seg s1 (global_base s1) (ps' @ as') 0
      \<and> ps' \<noteq> [] \<and> c1 = last ps'
      \<and> no_adjacent_free s1 ps'
      \<and> links_only s s1
      \<and> set (ps' @ as') \<subseteq> set (ps @ a # as)
      \<and> (chain s (ps @ a # as) e \<and> e < 2 ^ 64 \<longrightarrow> chain s1 (ps' @ as') e)"
proof (cases "status_f (meta s a) = STATUS_FREE")
  case False
  have "no_adjacent_free s (ps @ [a])"
    using naf False by (simp add: no_adjacent_free_snoc)
  then show ?thesis
    using False path
    by (intro exI [of _ s] exI [of _ a] exI [of _ "ps @ [a]"] exI [of _ as])
       (simp add: links_only_refl)
next
  case free: True
  from path have dist: "distinct (ps @ a # as)" by (rule reg_seg_distinct)
  from path have nz: "0 \<notin> set (ps @ a # as)" by (rule reg_seg_nonzero)
  have nxt: "next_f (meta s a) = (case as of [] \<Rightarrow> 0 | x # _ \<Rightarrow> x)"
    using reg_seg_last_next [of s "global_base s" "ps @ [a]" as] path by simp
  show ?thesis
  proof (cases "prev \<noteq> 0 \<and> status_f (meta s prev) = STATUS_FREE")
    case merge_back: True
    with prev have pne: "ps \<noteq> []" and pl: "prev = last ps" by (auto split: if_splits)
    then obtain qs where ps: "ps = qs @ [prev]" by (metis append_butlast_last_id)
    let ?m = "absorb s prev a"
    have gb_m: "global_base ?m = global_base s"
      using links_only_absorb [of s prev a] by (simp add: links_only_def)
    have path_m: "reg_seg ?m (global_base ?m) (ps @ as) 0"
      using path ps gb_m reg_seg_absorb [of s "global_base s" qs prev a as] by simp
    have naf_m: "no_adjacent_free ?m ps"
      using naf no_adjacent_free_cong [of ps ?m s] by (simp add: absorb_fields)
    have chain_m: "chain s (ps @ a # as) e \<and> e < 2 ^ 64 \<longrightarrow> chain ?m (ps @ as) e"
      using chain_absorb [of s qs prev a as e] dist ps by simp
    have nxt_m: "next_f (meta ?m prev) = next_f (meta s a)" by (simp add: absorb_fields)
    show ?thesis
    proof (cases "next_f (meta s a) \<noteq> 0
                  \<and> status_f (meta s (next_f (meta s a))) = STATUS_FREE")
      case merge_fwd: True
      with nxt obtain n as2 where as: "as = n # as2" and n: "next_f (meta s a) = n"
        by (cases as) auto
      let ?t = "absorb ?m prev n"
      have res: "coalesce_free s prev a = (?t, prev)"
        using merge_back merge_fwd n
        by (simp add: coalesce_free_absorb absorb_fields Let_def)
      have gb_t: "global_base ?t = global_base s"
        using links_only_absorb [of ?m prev n] gb_m by (simp add: links_only_def)
      have path_t: "reg_seg ?t (global_base ?t) (ps @ as2) 0"
        using path_m as ps gb_t gb_m reg_seg_absorb [of ?m "global_base s" qs prev n as2]
        by simp
      have naf_t: "no_adjacent_free ?t ps"
        using naf_m no_adjacent_free_cong [of ps ?t ?m] by (simp add: absorb_fields)
      have lo: "links_only s ?t"
        using links_only_trans [OF links_only_absorb links_only_absorb] .
      have dist_m: "distinct (qs @ prev # n # as2)" using dist ps as by auto
      have chain_t: "chain s (ps @ a # as) e \<and> e < 2 ^ 64 \<longrightarrow> chain ?t (ps @ as2) e"
        using chain_m chain_absorb [of ?m qs prev n as2 e] dist_m as ps by simp
      show ?thesis
        using free res path_t naf_t lo chain_t pne pl as
        by (intro exI [of _ ?t] exI [of _ prev] exI [of _ ps] exI [of _ as2]) auto
    next
      case False
      have res: "coalesce_free s prev a = (?m, prev)"
        using merge_back False
        by (auto simp add: coalesce_free_absorb absorb_fields Let_def)
      show ?thesis
        using free res path_m naf_m links_only_absorb [of s prev a] chain_m pne pl
        by (intro exI [of _ ?m] exI [of _ prev] exI [of _ ps] exI [of _ as]) auto
    qed
  next
    case no_back: False
    have naf_a: "no_adjacent_free s (ps @ [a])"
    proof (cases "ps = []")
      case True
      then show ?thesis by simp
    next
      case False
      then have "last ps \<in> set ps" by simp
      with nz have "last ps \<noteq> 0" by (metis Un_iff set_append)
      with False prev have "prev = last ps" "prev \<noteq> 0" by simp_all
      with no_back naf False show ?thesis by (simp add: no_adjacent_free_snoc)
    qed
    show ?thesis
    proof (cases "next_f (meta s a) \<noteq> 0
                  \<and> status_f (meta s (next_f (meta s a))) = STATUS_FREE")
      case merge_fwd: True
      with nxt obtain n as2 where as: "as = n # as2" and n: "next_f (meta s a) = n"
        by (cases as) auto
      let ?t = "absorb s a n"
      have res: "coalesce_free s prev a = (?t, a)"
        using no_back merge_fwd n by (auto simp add: coalesce_free_absorb Let_def)
      have gb_t: "global_base ?t = global_base s"
        using links_only_absorb [of s a n] by (simp add: links_only_def)
      have path_t: "reg_seg ?t (global_base ?t) ((ps @ [a]) @ as2) 0"
        using path as gb_t reg_seg_absorb [of s "global_base s" ps a n as2] by simp
      have naf_t: "no_adjacent_free ?t (ps @ [a])"
        using naf_a no_adjacent_free_cong [of "ps @ [a]" ?t s] by (simp add: absorb_fields)
      have chain_t: "chain s (ps @ a # as) e \<and> e < 2 ^ 64 \<longrightarrow> chain ?t ((ps @ [a]) @ as2) e"
        using chain_absorb [of s ps a n as2 e] dist as by simp
      show ?thesis
        using free res path_t naf_t links_only_absorb [of s a n] chain_t as
        by (intro exI [of _ ?t] exI [of _ a] exI [of _ "ps @ [a]"] exI [of _ as2]) auto
    next
      case False
      have res: "coalesce_free s prev a = (s, a)"
        using no_back False by (auto simp add: coalesce_free_absorb Let_def)
      show ?thesis
        using free res path naf_a
        by (intro exI [of _ s] exI [of _ a] exI [of _ "ps @ [a]"] exI [of _ as])
           (simp add: links_only_refl)
    qed
  qed
qed

lemma coalesce_loop_total:
  assumes "reg_seg s (global_base s) (ps @ as) 0"
    and "prev = (if ps = [] then 0 else last ps)"
    and "current = (case as of [] \<Rightarrow> 0 | x # _ \<Rightarrow> x)"
    and "no_adjacent_free s ps"
  shows "\<exists>l s' bs. coalesce_loop s prev current = Some (l, s')
      \<and> reg_seg s' (global_base s') bs 0
      \<and> no_adjacent_free s' bs
      \<and> l = (if bs = [] then 0 else last bs)
      \<and> links_only s s'
      \<and> set bs \<subseteq> set (ps @ as)
      \<and> (bs = [] \<longrightarrow> ps @ as = [])
      \<and> (chain s (ps @ as) e \<and> e < 2 ^ 64 \<longrightarrow> chain s' bs e)"
  using assms
proof (induction "length as" arbitrary: s ps as prev current rule: less_induct)
  case less
  show ?case
  proof (cases as)
    case Nil
    with less.prems show ?thesis
      by (intro exI [of _ prev] exI [of _ s] exI [of _ ps])
         (simp add: coalesce_loop.simps links_only_refl)
  next
    case (Cons a as1)
    with less.prems have cur: "current = a" and path: "reg_seg s (global_base s) (ps @ a # as1) 0"
      by simp_all
    from path have "0 \<notin> set (ps @ a # as1)" by (rule reg_seg_nonzero)
    then have anz: "a \<noteq> 0" by auto
    from coalesce_body [OF path less.prems(2) less.prems(4), of e]
    obtain s1 c1 ps' as' where
      body: "(if status_f (meta s a) = STATUS_FREE then coalesce_free s prev a else (s, a))
               = (s1, c1)"
      and len: "length as' \<le> length as1"
      and path1: "reg_seg s1 (global_base s1) (ps' @ as') 0"
      and ne: "ps' \<noteq> []" and c1: "c1 = last ps'"
      and naf1: "no_adjacent_free s1 ps'"
      and lo1: "links_only s s1"
      and sub1: "set (ps' @ as') \<subseteq> set (ps @ a # as1)"
      and ch1: "chain s (ps @ a # as1) e \<and> e < 2 ^ 64 \<longrightarrow> chain s1 (ps' @ as') e"
      by blast
    have step: "coalesce_loop s prev current = coalesce_loop s1 c1 (next_f (meta s1 c1))"
      using anz cur body by (simp add: coalesce_loop_step)
    have nx: "next_f (meta s1 c1) = (case as' of [] \<Rightarrow> 0 | x # _ \<Rightarrow> x)"
      using reg_seg_last_next [OF path1 ne] c1 by simp
    have pv: "c1 = (if ps' = [] then 0 else last ps')" using c1 ne by simp
    from len Cons have lt: "length as' < length as" by simp
    from less.hyps [OF lt path1 pv nx naf1]
    have "\<exists>l s' bs. coalesce_loop s1 c1 (next_f (meta s1 c1)) = Some (l, s')
      \<and> reg_seg s' (global_base s') bs 0
      \<and> no_adjacent_free s' bs
      \<and> l = (if bs = [] then 0 else last bs)
      \<and> links_only s1 s'
      \<and> set bs \<subseteq> set (ps' @ as')
      \<and> (bs = [] \<longrightarrow> ps' @ as' = [])
      \<and> (chain s1 (ps' @ as') e \<and> e < 2 ^ 64 \<longrightarrow> chain s' bs e)"
      by simp
    then obtain l s' bs where
      r: "coalesce_loop s1 c1 (next_f (meta s1 c1)) = Some (l, s')"
        "reg_seg s' (global_base s') bs 0" "no_adjacent_free s' bs"
        "l = (if bs = [] then 0 else last bs)" "links_only s1 s'"
        "set bs \<subseteq> set (ps' @ as')" "bs = [] \<longrightarrow> ps' @ as' = []"
        "chain s1 (ps' @ as') e \<and> e < 2 ^ 64 \<longrightarrow> chain s' bs e"
      by blast
    show ?thesis
      using step r lo1 sub1 ch1 ne Cons links_only_trans [OF lo1 r(5)]
      by (intro exI [of _ l] exI [of _ s'] exI [of _ bs]) auto
  qed
qed

text \<open>
  Claim C5. On every registry, one call of \<^verbatim>\<open>coalesce_blocks\<close> returns; the registry it
  leaves has no two adjacent FREE blocks; the pointer it returns is the last block of that
  registry, and null when the registry is empty.
\<close>

theorem coalesce_blocks_spec:
  assumes "registry s as"
  shows "\<exists>last_b s' bs. coalesce_blocks s = Some (last_b, s')
           \<and> registry s' bs \<and> no_adjacent_free s' bs
           \<and> last_b = (if bs = [] then 0 else last bs)
           \<and> (bs = [] \<longleftrightarrow> as = [])"
proof -
  from assms have p: "reg_seg s (global_base s) ([] @ as) 0" by (simp add: registry_def)
  have c: "global_base s = (case as of [] \<Rightarrow> 0 | x # _ \<Rightarrow> x)"
    using assms by (cases as) (simp_all add: registry_def)
  from coalesce_loop_total [OF p _ c, of 0 0]
  obtain l s' bs where r: "coalesce_loop s 0 (global_base s) = Some (l, s')"
    "reg_seg s' (global_base s') bs 0" "no_adjacent_free s' bs"
    "l = (if bs = [] then 0 else last bs)" "set bs \<subseteq> set as" "bs = [] \<longrightarrow> as = []"
    by auto
  from r(5,6) have "bs = [] \<longleftrightarrow> as = []" by auto
  with r(1-4) show ?thesis
    by (intro exI [of _ l] exI [of _ s'] exI [of _ bs])
       (simp add: coalesce_blocks_def registry_def)
qed

theorem coalesce_blocks_spec_witness:
  "registry st_ab_freed [0x1000000, 0x1000080, 0x1000100]
   \<and> map (\<lambda>a. status_f (meta st_ab_freed a)) [0x1000000, 0x1000080, 0x1000100]
       = [STATUS_FREE, STATUS_FREE, STATUS_FREE]
   \<and> fst (the (coalesce_blocks st_ab_freed)) = 0x1000000
   \<and> registry (snd (the (coalesce_blocks st_ab_freed))) [0x1000000]
   \<and> size_f (meta (snd (the (coalesce_blocks st_ab_freed))) 0x1000000) = 131072
   \<and> no_adjacent_free (snd (the (coalesce_blocks st_ab_freed))) [0x1000000]"
proof -
  have reg: "registry st_ab_freed [0x1000000, 0x1000080, 0x1000100]" by code_simp
  have free: "map (\<lambda>a. status_f (meta st_ab_freed a)) [0x1000000, 0x1000080, 0x1000100]
       = [STATUS_FREE, STATUS_FREE, STATUS_FREE]" by code_simp
  have tail: "fst (the (coalesce_blocks st_ab_freed)) = 0x1000000" by code_simp
  have reg': "registry (snd (the (coalesce_blocks st_ab_freed))) [0x1000000]" by code_simp
  have size': "size_f (meta (snd (the (coalesce_blocks st_ab_freed))) 0x1000000) = 131072"
    by code_simp
  from coalesce_blocks_spec [OF reg] obtain last_b s' bs where
    r: "coalesce_blocks st_ab_freed = Some (last_b, s')" "registry s' bs"
       "no_adjacent_free s' bs"
    by blast
  from r(1) have s': "s' = snd (the (coalesce_blocks st_ab_freed))" by simp
  with r(2) reg' have "bs = [0x1000000]"
    unfolding registry_def by (metis reg_seg_unique)
  with r(3) s' have "no_adjacent_free (snd (the (coalesce_blocks st_ab_freed))) [0x1000000]"
    by simp
  with reg free tail reg' size' show ?thesis by blast
qed

section \<open>Which store serves an allocation\<close>

lemma int_round_exact:
  fixes x :: size_t
  assumes "unat x < 2 ^ 31"
  shows "(scast (ucast x :: c_int) :: size_t) = x"
proof -
  have "unat (take_bit 31 x) = take_bit 31 (unat x)" by (simp add: unsigned_take_bit_eq)
  also have "\<dots> = unat x" using assms by (simp add: take_bit_nat_eq_self)
  finally have tb: "take_bit 31 x = x" by (simp only: word_unat_eq_iff)
  have "(scast (ucast (take_bit 31 x) :: c_int) :: size_t) = take_bit 31 x"
    by (rule bit_word_eqI) (auto simp add: bit_simps)
  with tb show ?thesis by simp
qed

lemma malloc_aligned_size_exact:
  "unat (ALIGN (sizeof_block_meta E) + ALIGN sz) < 2 ^ 31 \<Longrightarrow>
     scast (malloc_aligned_size E sz) = ALIGN (sizeof_block_meta E) + ALIGN sz"
  by (simp add: malloc_aligned_size_def int_round_exact)





section \<open>The common course of allocate and zeroed-allocate\<close>





section \<open>Placing a request in the registry\<close>


















section \<open>Sizes that fit an int\<close>







section \<open>The registry after an allocation\<close>









end
